theory Spec2Isabelle
  imports Complex_Main
begin

section \<open>Numbers and the drawing surface\<close>

text \<open>
  The TypeScript source (\<^verbatim>\<open>src/libs/WaveView.ts\<close>) computes with JavaScript numbers.
  They are idealised here as real numbers: no NaN, no infinities and no rounding of
  IEEE doubles. A number is truthy exactly when it is not zero, \<^verbatim>\<open>null\<close> and
  \<^verbatim>\<open>undefined\<close> are \<open>None\<close>, and an array (even an empty one) is truthy.
\<close>

type_synonym number = real

text \<open>
  The 2D drawing context is an external collaborator. Its method calls are recorded in
  the order they were accepted; its style properties are plain fields. A call that the
  surface rejects raises: the field \<open>rejects\<close> says which calls do.
\<close>

datatype cmd =
    ClearRect number number number number
  | BeginPath
  | MoveTo number number
  | LineTo number number
  | Stroke

datatype error = SurfaceError cmd

record canvas =
  lineWidth :: number
  strokeStyle :: string
  lineCap :: string
  lineJoin :: string
  calls :: "cmd list"
  rejects :: "cmd \<Rightarrow> bool"

definition call :: "cmd \<Rightarrow> canvas \<Rightarrow> error option \<times> canvas" where
  "call c ctx =
     (if rejects ctx c then (Some (SurfaceError c), ctx)
      else (None, ctx\<lparr>calls := calls ctx @ [c]\<rparr>))"

section \<open>ViewModel: one waveform channel\<close>

record ViewModel =
  waveQ :: "number list list"
  curPoints :: "number list option"
  width :: number
  height :: number
  clearView :: bool
  drawCount :: number
  median :: number
  baseLine :: number
  step :: number
  scaleRatio :: number
  maxCacheSize :: number
  startX :: number
  startY :: number
  x :: number
  y :: number
  padding :: number

text \<open>\<^verbatim>\<open>ViewModelOptions\<close>: the fields marked \<^verbatim>\<open>?\<close> may be absent.\<close>

record ViewModelOptions =
  opt_width :: number
  opt_height :: number
  opt_clearView :: "bool option"
  opt_median :: number
  opt_drawCount :: number
  opt_baseLine :: "number option"
  opt_step :: "number option"
  opt_scaleRatio :: "number option"
  opt_maxCacheSize :: "number option"
  opt_startX :: "number option"
  opt_startY :: "number option"
  opt_padding :: "number option"

text \<open>
  \<^verbatim>\<open>v ? v : d\<close> on an optional number: \<open>d\<close> when \<open>v\<close> is absent or zero.
  On an optional boolean: \<open>d\<close> when \<open>v\<close> is absent or false.
\<close>

definition num_or :: "number option \<Rightarrow> number \<Rightarrow> number" where
  "num_or v d = (case v of None \<Rightarrow> d | Some n \<Rightarrow> if n \<noteq> 0 then n else d)"

definition bool_or :: "bool option \<Rightarrow> bool \<Rightarrow> bool" where
  "bool_or v d = (case v of None \<Rightarrow> d | Some b \<Rightarrow> if b then b else d)"

definition floor_num :: "number \<Rightarrow> number" where
  "floor_num v = of_int \<lfloor>v\<rfloor>"

text \<open>The constructor, lines 250 to 278.\<close>

definition new_ViewModel :: "ViewModelOptions \<Rightarrow> ViewModel" where
  "new_ViewModel options =
     (let bl = floor_num (num_or (opt_baseLine options) (opt_height options / 2)) in
      \<lparr> waveQ = [],
        curPoints = None,
        width = opt_width options,
        height = opt_height options,
        clearView = bool_or (opt_clearView options) True,
        drawCount = (if opt_drawCount options \<noteq> 0 then opt_drawCount options else 1),
        median = opt_median options,
        baseLine = bl,
        step = num_or (opt_step options) 1,
        scaleRatio = num_or (opt_scaleRatio options) 1,
        maxCacheSize = floor_num (num_or (opt_maxCacheSize options) 0),
        startX = num_or (opt_startX options) 0,
        startY = num_or (opt_startY options) 0,
        x = - 1,
        y = bl,
        padding = num_or (opt_padding options) 16 \<rparr>)"

text \<open>
  \<^verbatim>\<open>ViewModel.push\<close>, lines 285 to 289: only a missing array is refused. The queue
  holds the caller's array itself and \<open>drawView\<close> shifts samples off it; the model takes
  every pushed array to be one that nothing else holds or changes.
\<close>

definition ViewModel_push :: "ViewModel \<Rightarrow> number list option \<Rightarrow> ViewModel" where
  "ViewModel_push vm points =
     (case points of None \<Rightarrow> vm | Some ps \<Rightarrow> vm\<lparr>waveQ := waveQ vm @ [ps]\<rparr>)"

definition calculateX :: "ViewModel \<Rightarrow> number" where
  "calculateX vm = x vm + step vm"

definition calculateY :: "ViewModel \<Rightarrow> number \<Rightarrow> number" where
  "calculateY vm point =
     of_int \<lfloor>baseLine vm + (median vm - point) * scaleRatio vm + 0.5\<rfloor>"

text \<open>The samples of the current packet; \<^verbatim>\<open>null\<close> has none.\<close>

definition points_of :: "ViewModel \<Rightarrow> number list" where
  "points_of vm = (case curPoints vm of None \<Rightarrow> [] | Some ps \<Rightarrow> ps)"

text \<open>
  The \<^verbatim>\<open>for\<close> loop of \<^verbatim>\<open>drawView\<close>, lines 331 to 335, with the number of
  iterations left. Each iteration moves \<open>x\<close>, shifts one sample off the current packet,
  sets \<open>y\<close> and then calls \<^verbatim>\<open>lineTo\<close>; a rejected call leaves the loop with the
  fields as they are by then. The loop bound never exceeds the packet's length, so the
  branch for an exhausted packet is not reached from \<open>drawView\<close>.
\<close>

fun drawLines :: "nat \<Rightarrow> ViewModel \<Rightarrow> canvas \<Rightarrow> error option \<times> ViewModel \<times> canvas" where
  "drawLines 0 vm ctx = (None, vm, ctx)"
| "drawLines (Suc n) vm ctx =
     (case points_of vm of
        [] \<Rightarrow> (None, vm, ctx)
      | p # ps \<Rightarrow>
          (let vm1 = vm\<lparr>x := calculateX vm\<rparr>;
               vm2 = vm1\<lparr>y := calculateY vm1 p, curPoints := Some ps\<rparr>
           in case call (LineTo (x vm2) (y vm2)) ctx of
                (Some e, ctx1) \<Rightarrow> (Some e, vm2, ctx1)
              | (None, ctx1) \<Rightarrow> drawLines n vm2 ctx1))"

text \<open>
  \<^verbatim>\<open>drawView\<close>, lines 318 to 342. Its only caller passes \<^verbatim>\<open>this.curPoints\<close> as
  \<^verbatim>\<open>points\<close>, so the shifts act on the current packet. The loop runs while
  \<^verbatim>\<open>i < size\<close> for \<open>i = 0, 1, ...\<close>, that is \<open>\<lceil>size\<rceil>\<close> times, and not at all when
  \<open>size \<le> 0\<close>.
\<close>

definition drawView :: "ViewModel \<Rightarrow> canvas \<Rightarrow> bool \<Rightarrow> error option \<times> ViewModel \<times> canvas" where
  "drawView vm ctx render =
     (case call (ClearRect (x vm) (startY vm) (padding vm) (height vm)) ctx of
        (Some e, ctx1) \<Rightarrow> (Some e, vm, ctx1)
      | (None, ctx1) \<Rightarrow>
     (case call BeginPath
             (ctx1\<lparr>lineWidth := 1, strokeStyle := ''black'',
                   lineCap := ''round'', lineJoin := ''round''\<rparr>) of
        (Some e, ctx2) \<Rightarrow> (Some e, vm, ctx2)
      | (None, ctx2) \<Rightarrow>
     (case call (MoveTo (x vm) (y vm)) ctx2 of
        (Some e, ctx3) \<Rightarrow> (Some e, vm, ctx3)
      | (None, ctx3) \<Rightarrow>
     (case drawLines (nat \<lceil>min (real (length (points_of vm))) (drawCount vm)\<rceil>) vm ctx3 of
        (Some e, vm4, ctx4) \<Rightarrow> (Some e, vm4, ctx4)
      | (None, vm4, ctx4) \<Rightarrow>
     (case (if render then call Stroke ctx4 else (None, ctx4)) of
        (Some e, ctx5) \<Rightarrow> (Some e, vm4, ctx5)
      | (None, ctx5) \<Rightarrow>
          (None, if x vm4 \<ge> width vm4 then vm4\<lparr>x := - 1\<rparr> else vm4, ctx5))))))"

text \<open>
  One pass through the first \<^verbatim>\<open>if\<close> of the loop of \<^verbatim>\<open>onDraw\<close>, lines 299 to 305:
  \<open>Some r\<close> when the pass returns or raises, \<open>None\<close> when control falls through to the
  queue.
\<close>

definition drawCurrent ::
  "ViewModel \<Rightarrow> canvas \<Rightarrow> bool \<Rightarrow> (error + bool) option \<times> ViewModel \<times> canvas" where
  "drawCurrent vm ctx render =
     (if points_of vm \<noteq> [] then
        (case drawView vm ctx render of
           (Some e, vm1, ctx1) \<Rightarrow> (Some (Inl e), vm1, ctx1)
         | (None, vm1, ctx1) \<Rightarrow>
             if maxCacheSize vm1 = 0 \<or> real (length (waveQ vm1)) < maxCacheSize vm1
             then (Some (Inr True), vm1, ctx1)
             else (None, vm1, ctx1))
      else (None, vm, ctx))"

text \<open>
  \<^verbatim>\<open>onDraw\<close>, lines 297 to 313. The result is the returned flag, or the error a
  rejected surface call raised; the channel and the surface are returned as the call
  left them in either case. Every pass either leaves the loop or shifts one packet off
  the queue.
\<close>

function onDraw :: "ViewModel \<Rightarrow> canvas \<Rightarrow> bool \<Rightarrow> (error + bool) \<times> ViewModel \<times> canvas" where
  "onDraw vm ctx render =
     (case drawCurrent vm ctx render of
        (Some r, vm1, ctx1) \<Rightarrow> (r, vm1, ctx1)
      | (None, vm1, ctx1) \<Rightarrow>
          (case waveQ vm1 of
             [] \<Rightarrow> (Inr False, vm1, ctx1)
           | ps # q \<Rightarrow> onDraw (vm1\<lparr>curPoints := Some ps, waveQ := q\<rparr>) ctx1 render))"
  by pat_completeness auto
termination
proof (relation "measure (\<lambda>(vm, ctx, render). length (waveQ vm))")
  show "wf (measure (\<lambda>(vm, ctx, render). length (waveQ vm)))"
    by simp
next
  fix vm :: ViewModel and ctx :: canvas and render :: bool
    and pr :: "(error + bool) option" and rest :: "ViewModel \<times> canvas"
    and vm1 :: ViewModel and ctx1 :: canvas and ps :: "number list" and q :: "number list list"
  assume d: "(pr, rest) = drawCurrent vm ctx render" "(vm1, ctx1) = rest"
    and w: "waveQ vm1 = ps # q"
  have lines: "drawLines n v c = (r, v', c') \<Longrightarrow> waveQ v' = waveQ v" for n v c r v' c'
  proof (induction n arbitrary: v c)
    case 0
    then show ?case by simp
  next
    case (Suc n)
    show ?case
    proof (cases "points_of v")
      case Nil
      with Suc.prems show ?thesis by simp
    next
      case (Cons p ps)
      with Suc.prems Suc.IH show ?thesis
        by (fastforce simp: Let_def split: prod.splits option.splits)
    qed
  qed
  have view: "drawView v c r = (e, v', c') \<Longrightarrow> waveQ v' = waveQ v" for v c r e v' c'
    by (auto simp: drawView_def split: prod.splits option.splits if_splits dest: lines)
  have "waveQ (fst (snd (drawCurrent vm ctx render))) = waveQ vm"
    by (auto simp: drawCurrent_def split: prod.splits option.splits dest: view)
  with d have "waveQ vm1 = waveQ vm"
    by (metis fst_conv snd_conv)
  with w show "((vm1\<lparr>curPoints := Some ps, waveQ := q\<rparr>, ctx1, render), vm, ctx, render)
      \<in> measure (\<lambda>(vm, ctx, render). length (waveQ vm))"
    by simp
qed

declare onDraw.simps [simp del]

text \<open>\<^verbatim>\<open>ViewModel.clear\<close>, lines 363 to 369.\<close>

definition ViewModel_clear :: "ViewModel \<Rightarrow> canvas \<Rightarrow> error option \<times> ViewModel \<times> canvas" where
  "ViewModel_clear vm ctx =
     (if clearView vm then
        (case call (ClearRect (startX vm) (startY vm) (width vm) (height vm)) ctx of
           (Some e, ctx1) \<Rightarrow> (Some e, vm, ctx1)
         | (None, ctx1) \<Rightarrow> (None, vm\<lparr>x := - 1, y := baseLine vm\<rparr>, ctx1))
      else (None, vm\<lparr>x := - 1, y := baseLine vm\<rparr>, ctx))"

section \<open>WaveView: the scheduler\<close>

text \<open>
  \<open>timer\<close> holds the period of the running interval, \<open>None\<close> when no interval is set
  (\<^verbatim>\<open>undefined\<close> at first, \<^verbatim>\<open>null\<close> after a stop); a handle is always truthy.
  The clock \<^verbatim>\<open>Date.now()\<close> is an argument of the operations that read it.
\<close>

record WaveView =
  ctx :: canvas
  timer :: "number option"
  interval :: number
  rcvTime :: number
  models :: "ViewModel list"
  clear :: bool
  recover :: bool

text \<open>
  The constructor, lines 38 to 44. The callback \<^verbatim>\<open>init.onInit\<close> is the caller's; it is
  taken to install the channels \<open>ms\<close>.
\<close>

definition new_WaveView :: "canvas \<Rightarrow> ViewModel list \<Rightarrow> number \<Rightarrow> WaveView" where
  "new_WaveView cv ms iv =
     \<lparr> ctx = cv, timer = None, interval = iv, rcvTime = 0, models = ms,
       clear = False, recover = True \<rparr>"

definition startTimer :: "bool \<Rightarrow> WaveView \<Rightarrow> WaveView" where
  "startTimer r s =
     (if timer s = None then s\<lparr>timer := Some (interval s), recover := r\<rparr> else s)"

definition stopTimer :: "bool \<Rightarrow> WaveView \<Rightarrow> WaveView" where
  "stopTimer r s =
     (if timer s \<noteq> None then s\<lparr>timer := None, recover := r\<rparr> else s)"

definition start :: "WaveView \<Rightarrow> WaveView" where
  "start s = startTimer True s"

definition pause :: "WaveView \<Rightarrow> WaveView" where
  "pause s = stopTimer True s"

definition stop :: "WaveView \<Rightarrow> WaveView" where
  "stop s = stopTimer False s"

text \<open>
  The loop of \<^verbatim>\<open>push\<close>, lines 68 to 71: \<^verbatim>\<open>waves[i]\<close> goes to \<^verbatim>\<open>models[i]\<close>
  for every index both have.
\<close>

fun pushEach :: "ViewModel list \<Rightarrow> number list option list \<Rightarrow> ViewModel list" where
  "pushEach (m # ms) (w # ws) = ViewModel_push m w # pushEach ms ws"
| "pushEach ms [] = ms"
| "pushEach [] ws = []"

text \<open>
  \<^verbatim>\<open>push\<close>, lines 65 to 77. A \<^verbatim>\<open>null\<close> argument fails the guard as the empty
  array does.
\<close>

definition push :: "number list option list \<Rightarrow> number \<Rightarrow> WaveView \<Rightarrow> WaveView" where
  "push waves now s =
     (if waves \<noteq> [] then
        (let s1 = s\<lparr>rcvTime := now, models := pushEach (models s) waves\<rparr>
         in if timer s1 = None \<and> recover s1 then startTimer True s1 else s1)
      else s)"

text \<open>
  The loop of \<^verbatim>\<open>clearView\<close>, lines 163 to 169: an error of one channel is caught
  (and printed, which is not modelled) and the loop goes on.
\<close>

fun clearEach :: "ViewModel list \<Rightarrow> canvas \<Rightarrow> ViewModel list \<times> canvas" where
  "clearEach [] cv = ([], cv)"
| "clearEach (m # ms) cv =
     (case ViewModel_clear m cv of
        (r, m1, cv1) \<Rightarrow> (case clearEach ms cv1 of (ms1, cv2) \<Rightarrow> (m1 # ms1, cv2)))"

text \<open>
  \<^verbatim>\<open>clearView\<close>, lines 156 to 174; \<^verbatim>\<open>onDrawBackground\<close> does nothing. The
  \<^verbatim>\<open>finally\<close> block sets \<open>clear\<close> on every path.
\<close>

definition WaveView_clearView :: "WaveView \<Rightarrow> error option \<times> WaveView" where
  "WaveView_clearView s =
     (if length (models s) = 1 then
        (case ViewModel_clear (hd (models s)) (ctx s) of
           (r, m1, cv1) \<Rightarrow> (r, s\<lparr>ctx := cv1, models := [m1], clear := True\<rparr>))
      else
        (case clearEach (models s) (ctx s) of
           (ms1, cv1) \<Rightarrow> (None, s\<lparr>ctx := cv1, models := ms1, clear := True\<rparr>)))"

text \<open>
  The loop of \<^verbatim>\<open>draw\<close>, lines 137 to 139, with the flag so far. Nothing catches an
  error of \<^verbatim>\<open>onDraw\<close>: it ends the loop, and the channels after it are not drawn.
\<close>

fun drawEach :: "ViewModel list \<Rightarrow> canvas \<Rightarrow> bool \<Rightarrow> (error + bool) \<times> ViewModel list \<times> canvas" where
  "drawEach [] cv drawFlag = (Inr drawFlag, [], cv)"
| "drawEach (m # ms) cv drawFlag =
     (case onDraw m cv True of
        (Inl e, m1, cv1) \<Rightarrow> (Inl e, m1 # ms, cv1)
      | (Inr b, m1, cv1) \<Rightarrow>
          (case drawEach ms cv1 (b \<or> drawFlag) of
             (r, ms1, cv2) \<Rightarrow> (r, m1 # ms1, cv2)))"

text \<open>\<^verbatim>\<open>draw\<close>, lines 132 to 151, at the time \<open>now\<close>.\<close>

definition draw :: "number \<Rightarrow> WaveView \<Rightarrow> error option \<times> WaveView" where
  "draw now s =
     (case (if length (models s) = 1 then
              (case onDraw (hd (models s)) (ctx s) True of
                 (r, m1, cv1) \<Rightarrow> (r, [m1], cv1))
            else drawEach (models s) (ctx s) False) of
        (Inl e, ms1, cv1) \<Rightarrow> (Some e, s\<lparr>ctx := cv1, models := ms1\<rparr>)
      | (Inr drawFlag, ms1, cv1) \<Rightarrow>
          (let s1 = s\<lparr>ctx := cv1, models := ms1\<rparr> in
           if \<not> drawFlag then
             (if now - rcvTime s1 \<ge> 2000 then
                (case WaveView_clearView s1 of
                   (Some e, s2) \<Rightarrow> (Some e, s2)
                 | (None, s2) \<Rightarrow> (None, pause s2))
              else (None, s1))
           else (None, s1)))"

text \<open>
  What happens to a scheduler: calls of its public methods, and the interval firing.
  The interval fires only while it is set; an error that escapes its callback is
  reported by the runtime and the interval stays set.
\<close>

datatype event =
    Push "number list option list" number
  | Start
  | Pause
  | Stop
  | Tick number

fun fire :: "WaveView \<Rightarrow> event \<Rightarrow> WaveView" where
  "fire s (Push waves now) = push waves now s"
| "fire s Start = start s"
| "fire s Pause = pause s"
| "fire s Stop = stop s"
| "fire s (Tick now) = (if timer s \<noteq> None then snd (draw now s) else s)"

definition run :: "event list \<Rightarrow> WaveView \<Rightarrow> WaveView" where
  "run es s = foldl fire s es"

section \<open>What the properties observe\<close>

text \<open>
  The samples a channel still holds: those left in the current packet and those of the
  queued packets.
\<close>

definition pending :: "ViewModel \<Rightarrow> nat" where
  "pending vm = length (points_of vm) + sum_list (map length (waveQ vm))"

text \<open>
  A sample is drawn by one call of \<^verbatim>\<open>lineTo\<close>; \<open>drawn\<close> counts the calls the surface
  accepted so far.
\<close>

fun is_LineTo :: "cmd \<Rightarrow> bool" where
  "is_LineTo (LineTo a b) = True"
| "is_LineTo c = False"

definition drawn :: "canvas \<Rightarrow> nat" where
  "drawn cv = length (filter is_LineTo (calls cv))"

text \<open>
  A tick source that runs to exhaustion: \<open>onDraw\<close> is called until it returns
  \<^verbatim>\<open>false\<close>, at most \<open>n\<close> times. \<open>None\<close> says that \<open>n\<close> calls were not enough.
\<close>

fun drain :: "nat \<Rightarrow> ViewModel \<Rightarrow> canvas \<Rightarrow> (error + ViewModel \<times> canvas) option" where
  "drain 0 vm cv = None"
| "drain (Suc n) vm cv =
     (case onDraw vm cv True of
        (Inl e, vm1, cv1) \<Rightarrow> Some (Inl e)
      | (Inr b, vm1, cv1) \<Rightarrow> if b then drain n vm1 cv1 else Some (Inr (vm1, cv1)))"

text \<open>
  Concrete surfaces and channels for the closed instances below: a surface that
  rejects nothing, and the options of a channel 300 wide and 200 high that draws \<open>n\<close>
  samples per tick with the threshold \<open>k\<close>.
\<close>

definition blank_canvas :: canvas where
  "blank_canvas =
     \<lparr> lineWidth = 1, strokeStyle = ''#000000'', lineCap = ''butt'', lineJoin = ''miter'',
       calls = [], rejects = (\<lambda>c. False) \<rparr>"

definition lane_options :: "number \<Rightarrow> number \<Rightarrow> ViewModelOptions" where
  "lane_options n k =
     \<lparr> opt_width = 300, opt_height = 200, opt_clearView = None, opt_median = 512,
       opt_drawCount = n, opt_baseLine = None, opt_step = None, opt_scaleRatio = None,
       opt_maxCacheSize = Some k, opt_startX = None, opt_startY = None, opt_padding = None \<rparr>"

text \<open>
  Two conditions on a scheduler: stopped with auto-recovery off, and the invariant that
  a set interval goes with auto-recovery on.
\<close>

definition stopped_for_good :: "WaveView \<Rightarrow> bool" where
  "stopped_for_good s = (timer s = None \<and> \<not> recover s)"

definition recover_while_running :: "WaveView \<Rightarrow> bool" where
  "recover_while_running s = (timer s \<noteq> None \<longrightarrow> recover s)"

text \<open>A scheduler with one channel and no data, as constructed.\<close>

definition idle_view :: WaveView where
  "idle_view = new_WaveView blank_canvas [new_ViewModel (lane_options 1 0)] 40"

text \<open>
  Two channels stacked on one surface, each with one packet pushed, and a surface
  that rejects every \<^verbatim>\<open>clearRect\<close> whose top edge is \<open>0\<close>: the calls of the upper
  channel.
\<close>

definition lane_at :: "number \<Rightarrow> ViewModelOptions" where
  "lane_at sy = (lane_options 1 0)\<lparr>opt_height := 100, opt_startY := Some sy\<rparr>"

definition faulty_canvas :: canvas where
  "faulty_canvas =
     blank_canvas\<lparr>rejects := (\<lambda>c. case c of ClearRect a b w h \<Rightarrow> b = 0 | _ \<Rightarrow> False)\<rparr>"

definition two_lane_view :: "canvas \<Rightarrow> WaveView" where
  "two_lane_view cv =
     push [Some [1], Some [2]] 0
       (new_WaveView cv [new_ViewModel (lane_at 0), new_ViewModel (lane_at 100)] 40)"


section \<open>What a draw changes\<close>

text \<open>The definitions that evaluate a concrete channel, and a concrete scheduler.\<close>

lemmas eval_defs =
  blank_canvas_def lane_options_def new_ViewModel_def ViewModel_push_def num_or_def bool_or_def
  floor_num_def onDraw.simps drawCurrent_def drawView_def call_def points_of_def
  calculateX_def calculateY_def pending_def drawn_def Let_def

lemmas view_defs =
  idle_view_def new_WaveView_def start_def stop_def pause_def startTimer_def stopTimer_def
  push_def run_def draw_def WaveView_clearView_def ViewModel_clear_def

text \<open>
  Drawing touches the cursor and the current packet of a channel and nothing else of
  it; the surface keeps its \<open>rejects\<close>.
\<close>

lemma call_rejects: "call c cv = (r, cv') \<Longrightarrow> rejects cv' = rejects cv"
  by (auto simp: call_def split: if_splits)

lemma drawLines_frame:
  "drawLines n vm cv = (r, vm', cv') \<Longrightarrow>
     (\<exists>a b c. vm' = vm\<lparr>x := a, y := b, curPoints := c\<rparr>) \<and> rejects cv' = rejects cv"
proof (induction n arbitrary: vm cv)
  case 0
  then have "vm' = vm\<lparr>x := x vm, y := y vm, curPoints := curPoints vm\<rparr>" "cv' = cv"
    by simp_all
  then show ?case by blast
next
  case (Suc n)
  show ?case
  proof (cases "points_of vm")
    case Nil
    with Suc.prems have "vm' = vm\<lparr>x := x vm, y := y vm, curPoints := curPoints vm\<rparr>" "cv' = cv"
      by simp_all
    then show ?thesis by blast
  next
    case (Cons p ps)
    let ?vm2 = "vm\<lparr>x := calculateX vm, y := calculateY (vm\<lparr>x := calculateX vm\<rparr>) p, curPoints := Some ps\<rparr>"
    show ?thesis
    proof (cases "rejects cv (LineTo (x ?vm2) (y ?vm2))")
      case True
      with Cons Suc.prems have "vm' = ?vm2" "cv' = cv"
        by (simp_all add: call_def Let_def)
      then show ?thesis by blast
    next
      case False
      with Cons Suc.prems have "drawLines n ?vm2 (cv\<lparr>calls := calls cv @ [LineTo (x ?vm2) (y ?vm2)]\<rparr>) = (r, vm', cv')"
        by (simp add: call_def Let_def)
      from Suc.IH [OF this] obtain a b c where "vm' = ?vm2\<lparr>x := a, y := b, curPoints := c\<rparr>"
        and "rejects cv' = rejects cv" by auto
      then have "vm' = vm\<lparr>x := a, y := b, curPoints := c\<rparr>" "rejects cv' = rejects cv" by simp_all
      then show ?thesis by blast
    qed
  qed
qed

lemma drawView_frame:
  assumes "drawView vm cv r = (e, vm', cv')"
  shows "(\<exists>a b c. vm' = vm\<lparr>x := a, y := b, curPoints := c\<rparr>) \<and> rejects cv' = rejects cv"
proof -
  have same: "\<exists>a b c. vm = vm\<lparr>x := a, y := b, curPoints := c\<rparr>"
    by (rule exI [of _ "x vm"], rule exI [of _ "y vm"], rule exI [of _ "curPoints vm"]) simp
  have upd: "\<exists>a' b' c'. vm\<lparr>x := a, y := b, curPoints := c\<rparr>\<lparr>x := - 1\<rparr> = vm\<lparr>x := a', y := b', curPoints := c'\<rparr>" for a b c
    by (rule exI [of _ "- 1"], rule exI [of _ b], rule exI [of _ c]) simp
  from assms show ?thesis
    apply (simp add: drawView_def split: prod.splits option.splits if_splits)
    using same upd
    apply (auto dest!: drawLines_frame call_rejects)
    done
qed

lemma drawCurrent_frame:
  assumes "drawCurrent vm cv r = (e, vm', cv')"
  shows "(\<exists>a b c. vm' = vm\<lparr>x := a, y := b, curPoints := c\<rparr>) \<and> rejects cv' = rejects cv"
proof (cases "points_of vm = []")
  case True
  with assms have "vm' = vm\<lparr>x := x vm, y := y vm, curPoints := curPoints vm\<rparr>" "cv' = cv"
    by (simp_all add: drawCurrent_def)
  then show ?thesis by blast
next
  case False
  obtain e1 vm1 cv1 where dv: "drawView vm cv r = (e1, vm1, cv1)"
    by (cases "drawView vm cv r") auto
  with False assms have "vm' = vm1" "cv' = cv1"
    by (auto simp: drawCurrent_def split: option.splits if_splits)
  with drawView_frame [OF dv] show ?thesis by simp
qed

lemma drawCurrent_maxCacheSize:
  "drawCurrent vm cv r = (e, vm', cv') \<Longrightarrow> maxCacheSize vm' = maxCacheSize vm"
  by (auto dest!: drawCurrent_frame)

text \<open>When \<open>onDraw\<close> returns, the queue is below a positive threshold.\<close>

lemma drawCurrent_returns:
  assumes "drawCurrent vm cv r = (Some (Inr b), vm', cv')"
  shows "b \<and> (maxCacheSize vm = 0 \<or> real (length (waveQ vm')) < maxCacheSize vm)"
proof -
  from assms have ne: "points_of vm \<noteq> []"
    by (auto simp: drawCurrent_def split: if_splits)
  obtain e1 vm1 cv1 where dv: "drawView vm cv r = (e1, vm1, cv1)"
    by (cases "drawView vm cv r") auto
  from drawView_frame [OF dv] have "maxCacheSize vm1 = maxCacheSize vm" by auto
  with assms ne dv show ?thesis
    by (auto simp: drawCurrent_def split: option.splits if_splits)
qed

lemma onDraw_backlog:
  "onDraw vm cv r = (Inr b, vm', cv') \<Longrightarrow> 0 < maxCacheSize vm \<Longrightarrow>
     real (length (waveQ vm')) < maxCacheSize vm \<and> maxCacheSize vm' = maxCacheSize vm"
proof (induction vm cv r rule: onDraw.induct)
  case (1 vm cv r)
  obtain e1 vm1 cv1 where dc: "drawCurrent vm cv r = (e1, vm1, cv1)"
    by (cases "drawCurrent vm cv r") auto
  note mx = drawCurrent_maxCacheSize [OF dc]
  show ?case
  proof (cases e1)
    case (Some res)
    with dc "1.prems" have "res = Inr b" "vm' = vm1"
      by (simp_all add: onDraw.simps [of vm cv r])
    with dc Some drawCurrent_returns [of vm cv r b vm1 cv1] "1.prems" mx show ?thesis
      by auto
  next
    case None
    show ?thesis
    proof (cases "waveQ vm1")
      case Nil
      with dc None "1.prems" have "vm' = vm1"
        by (simp add: onDraw.simps [of vm cv r])
      with Nil mx "1.prems" show ?thesis by simp
    next
      case (Cons ps q)
      with dc None "1.prems"
      have "onDraw (vm1\<lparr>curPoints := Some ps, waveQ := q\<rparr>) cv1 r = (Inr b, vm', cv')"
        by (simp add: onDraw.simps [of vm cv r])
      from "1.IH" [OF dc [symmetric] None refl Cons this] mx "1.prems"
      show ?thesis by simp
    qed
  qed
qed

text \<open>
  On a surface that rejects nothing, a slice draws as many samples as it takes off the
  current packet; without a threshold, a tick neither loses nor invents a sample.
\<close>

lemma drawLines_accepted:
  assumes "\<forall>c. \<not> rejects cv c" and "n \<le> length (points_of vm)"
  shows "\<exists>vm' cv'. drawLines n vm cv = (None, vm', cv') \<and>
           points_of vm' = drop n (points_of vm) \<and> drawn cv' = drawn cv + n"
  using assms
proof (induction n arbitrary: vm cv)
  case 0
  then show ?case by simp
next
  case (Suc n)
  then obtain p ps where pts: "points_of vm = p # ps"
    by (cases "points_of vm") auto
  let ?vm2 = "vm\<lparr>x := calculateX vm, y := calculateY (vm\<lparr>x := calculateX vm\<rparr>) p, curPoints := Some ps\<rparr>"
  let ?cv2 = "cv\<lparr>calls := calls cv @ [LineTo (x ?vm2) (y ?vm2)]\<rparr>"
  have step: "drawLines (Suc n) vm cv = drawLines n ?vm2 ?cv2"
    using pts Suc.prems(1) by (simp add: call_def Let_def)
  have p2: "points_of ?vm2 = ps"
    by (simp add: points_of_def)
  have "\<forall>c. \<not> rejects ?cv2 c" "n \<le> length (points_of ?vm2)"
    using Suc.prems pts p2 by simp_all
  from Suc.IH [OF this] obtain vm' cv' where
    "drawLines n ?vm2 ?cv2 = (None, vm', cv')" "points_of vm' = drop n ps"
    "drawn cv' = drawn ?cv2 + n"
    using p2 by auto
  with step pts show ?case
    by (simp add: drawn_def)
qed

lemma slice_le_length: "nat \<lceil>min (real (length ps)) d\<rceil> \<le> length ps"
  by (simp add: nat_le_iff ceiling_le_iff)

lemma slice_positive: "ps \<noteq> [] \<Longrightarrow> 0 < d \<Longrightarrow> 0 < nat \<lceil>min (real (length ps)) d\<rceil>"
  by (cases ps) simp_all

lemma drawView_accepted:
  assumes "\<forall>c. \<not> rejects cv c"
  shows "\<exists>vm' cv'. drawView vm cv r = (None, vm', cv') \<and>
           points_of vm' = drop (nat \<lceil>min (real (length (points_of vm))) (drawCount vm)\<rceil>) (points_of vm) \<and>
           drawn cv' = drawn cv + nat \<lceil>min (real (length (points_of vm))) (drawCount vm)\<rceil>"
proof -
  let ?n = "nat \<lceil>min (real (length (points_of vm))) (drawCount vm)\<rceil>"
  let ?cv3 = "cv\<lparr>calls := calls cv @ [ClearRect (x vm) (startY vm) (padding vm) (height vm)],
                 lineWidth := 1, strokeStyle := ''black'', lineCap := ''round'', lineJoin := ''round'',
                 calls := calls cv @ [ClearRect (x vm) (startY vm) (padding vm) (height vm)] @ [BeginPath],
                 calls := calls cv @ [ClearRect (x vm) (startY vm) (padding vm) (height vm)] @ [BeginPath] @ [MoveTo (x vm) (y vm)]\<rparr>"
  have acc: "\<forall>c. \<not> rejects ?cv3 c" using assms by simp
  have d3: "drawn ?cv3 = drawn cv" by (simp add: drawn_def)
  from drawLines_accepted [OF acc slice_le_length, of vm "drawCount vm"]
  obtain vm4 cv4 where dl: "drawLines ?n vm ?cv3 = (None, vm4, cv4)"
    and p4: "points_of vm4 = drop ?n (points_of vm)" and d4: "drawn cv4 = drawn ?cv3 + ?n"
    by auto
  from drawLines_frame [OF dl] have r4: "\<forall>c. \<not> rejects cv4 c" using acc by simp
  have "drawView vm cv r =
          (None, if x vm4 \<ge> width vm4 then vm4\<lparr>x := - 1\<rparr> else vm4,
           if r then cv4\<lparr>calls := calls cv4 @ [Stroke]\<rparr> else cv4)"
    using assms dl r4 by (simp add: drawView_def call_def)
  moreover have "points_of (if x vm4 \<ge> width vm4 then vm4\<lparr>x := - 1\<rparr> else vm4) = points_of vm4"
    by (simp add: points_of_def)
  moreover have "drawn (if r then cv4\<lparr>calls := calls cv4 @ [Stroke]\<rparr> else cv4) = drawn cv4"
    by (simp add: drawn_def)
  ultimately show ?thesis using p4 d4 d3 by simp
qed

lemma drawCurrent_accepted:
  assumes "\<forall>c. \<not> rejects cv c" and "maxCacheSize vm = 0" and "points_of vm \<noteq> []"
  shows "\<exists>vm' cv'. drawCurrent vm cv r = (Some (Inr True), vm', cv') \<and>
           pending vm' + drawn cv' = pending vm + drawn cv \<and>
           (0 < drawCount vm \<longrightarrow> pending vm' < pending vm)"
proof -
  let ?n = "nat \<lceil>min (real (length (points_of vm))) (drawCount vm)\<rceil>"
  from drawView_accepted [OF assms(1), of vm r]
  obtain vm1 cv1 where dv: "drawView vm cv r = (None, vm1, cv1)"
    and p1: "points_of vm1 = drop ?n (points_of vm)" and d1: "drawn cv1 = drawn cv + ?n"
    by auto
  from drawView_frame [OF dv] have fr: "waveQ vm1 = waveQ vm" "maxCacheSize vm1 = maxCacheSize vm"
    by auto
  have dc: "drawCurrent vm cv r = (Some (Inr True), vm1, cv1)"
    using assms dv fr by (simp add: drawCurrent_def)
  have le: "?n \<le> length (points_of vm)" by (rule slice_le_length)
  have "pending vm1 + drawn cv1 = pending vm + drawn cv"
    using p1 d1 fr le by (simp add: pending_def)
  moreover have "0 < drawCount vm \<longrightarrow> pending vm1 < pending vm"
    using p1 fr le slice_positive [OF assms(3), of "drawCount vm"] by (auto simp: pending_def)
  ultimately show ?thesis using dc by simp
qed

lemma onDraw_accepted:
  "\<forall>c. \<not> rejects cv c \<Longrightarrow> maxCacheSize vm = 0 \<Longrightarrow>
     \<exists>b vm' cv'. onDraw vm cv r = (Inr b, vm', cv') \<and>
       pending vm' + drawn cv' = pending vm + drawn cv \<and>
       (\<not> b \<longrightarrow> pending vm' = 0) \<and>
       (b \<and> 0 < drawCount vm \<longrightarrow> pending vm' < pending vm) \<and>
       maxCacheSize vm' = 0 \<and> drawCount vm' = drawCount vm \<and> (\<forall>c. \<not> rejects cv' c)"
proof (induction vm cv r rule: onDraw.induct)
  case (1 vm cv r)
  show ?case
  proof (cases "points_of vm = []")
    case False
    from drawCurrent_accepted [OF "1.prems" False, of r]
    obtain vm1 cv1 where dc: "drawCurrent vm cv r = (Some (Inr True), vm1, cv1)"
      and cnt: "pending vm1 + drawn cv1 = pending vm + drawn cv"
      and dec: "0 < drawCount vm \<longrightarrow> pending vm1 < pending vm"
      by auto
    from dc have od: "onDraw vm cv r = (Inr True, vm1, cv1)"
      by (simp add: onDraw.simps [of vm cv r])
    from drawCurrent_frame [OF dc] "1.prems"
    have "maxCacheSize vm1 = 0" "drawCount vm1 = drawCount vm" "\<forall>c. \<not> rejects cv1 c"
      by auto
    with od cnt dec show ?thesis by auto
  next
    case True
    then have dc: "drawCurrent vm cv r = (None, vm, cv)"
      by (simp add: drawCurrent_def)
    show ?thesis
    proof (cases "waveQ vm")
      case Nil
      with dc have "onDraw vm cv r = (Inr False, vm, cv)"
        by (simp add: onDraw.simps [of vm cv r])
      with True Nil "1.prems" show ?thesis by (auto simp: pending_def)
    next
      case (Cons ps q)
      let ?vm2 = "vm\<lparr>curPoints := Some ps, waveQ := q\<rparr>"
      from dc Cons have od: "onDraw vm cv r = onDraw ?vm2 cv r"
        by (simp add: onDraw.simps [of vm cv r])
      have p2: "pending ?vm2 = pending vm"
        using True Cons by (simp add: pending_def points_of_def)
      have "maxCacheSize ?vm2 = 0" using "1.prems" by simp
      from "1.IH" [OF dc [symmetric] refl refl Cons "1.prems"(1) this] od p2
      show ?thesis by auto
    qed
  qed
qed

lemma drain_exhausts:
  "\<forall>c. \<not> rejects cv c \<Longrightarrow> maxCacheSize vm = 0 \<Longrightarrow> 0 < drawCount vm \<Longrightarrow> pending vm < n \<Longrightarrow>
     \<exists>vm' cv'. drain n vm cv = Some (Inr (vm', cv')) \<and> pending vm' = 0 \<and>
       drawn cv' = drawn cv + pending vm"
proof (induction n arbitrary: vm cv)
  case 0
  then show ?case by simp
next
  case (Suc n)
  from onDraw_accepted [OF Suc.prems(1,2), of True]
  obtain b vm1 cv1 where od: "onDraw vm cv True = (Inr b, vm1, cv1)"
    and cnt: "pending vm1 + drawn cv1 = pending vm + drawn cv"
    and fin: "\<not> b \<longrightarrow> pending vm1 = 0"
    and dec: "b \<and> 0 < drawCount vm \<longrightarrow> pending vm1 < pending vm"
    and fr: "maxCacheSize vm1 = 0" "drawCount vm1 = drawCount vm" "\<forall>c. \<not> rejects cv1 c"
    by blast
  show ?case
  proof (cases b)
    case False
    with od cnt fin show ?thesis by auto
  next
    case True
    with dec Suc.prems have "pending vm1 < n" by simp
    from Suc.IH [OF fr(3) fr(1) _ this] fr(2) Suc.prems(3)
    obtain vm' cv' where "drain n vm1 cv1 = Some (Inr (vm', cv'))" "pending vm' = 0"
      "drawn cv' = drawn cv1 + pending vm1"
      by auto
    with od True cnt show ?thesis by simp
  qed
qed

text \<open>More ticks than needed change nothing: the run to exhaustion has one outcome.\<close>

lemma drain_more_fuel:
  "drain n vm cv = Some res \<Longrightarrow> drain (n + k) vm cv = Some res"
proof (induction n arbitrary: vm cv)
  case 0
  then show ?case by simp
next
  case (Suc n)
  obtain r vm1 cv1 where od: "onDraw vm cv True = (r, vm1, cv1)"
    by (cases "onDraw vm cv True") auto
  show ?case
  proof (cases r)
    case (Inl e)
    with od Suc.prems show ?thesis by simp
  next
    case (Inr b)
    with od Suc.prems Suc.IH [of vm1 cv1] show ?thesis
      by (cases b) simp_all
  qed
qed

lemma drain_unique:
  assumes "drain n vm cv = Some res" and "drain m vm cv = Some res'"
  shows "res' = res"
proof -
  from drain_more_fuel [OF assms(1), of m] drain_more_fuel [OF assms(2), of n]
  show ?thesis by (simp add: add.commute)
qed

lemma pushed_pending:
  "pending (foldl ViewModel_push vm (map Some bs)) = pending vm + sum_list (map length bs) \<and>
   maxCacheSize (foldl ViewModel_push vm (map Some bs)) = maxCacheSize vm \<and>
   drawCount (foldl ViewModel_push vm (map Some bs)) = drawCount vm"
  by (induction bs arbitrary: vm) (simp_all add: ViewModel_push_def pending_def points_of_def)

section \<open>No sample is dropped\<close>

text \<open>
  C1, as the specification states it: whatever the batches pushed, ticks that run until
  the channel reports no output draw as many samples as were pushed, also when
  \<open>maxCacheSize > 0\<close> and the queue is at the threshold after a slice. The code does
  otherwise: with \<open>maxCacheSize = 1\<close> and \<open>drawCount = 1\<close>, after the packets
  \<open>[1, 2]\<close> and \<open>[3]\<close> the first tick draws \<open>1\<close>, finds the queue at the threshold,
  replaces the current packet (still holding \<open>2\<close>) by \<open>[3]\<close> and draws \<open>3\<close>; the second
  tick reports no output. Two samples were drawn, three were pushed.
\<close>

theorem catch_up_drops_samples:
  "pending (ViewModel_push (ViewModel_push (new_ViewModel (lane_options 1 1)) (Some [1, 2])) (Some [3])) = 3 \<and>
   (case drain 2 (ViewModel_push (ViewModel_push (new_ViewModel (lane_options 1 1)) (Some [1, 2])) (Some [3]))
           blank_canvas of
      Some (Inr (vm', cv')) \<Rightarrow> pending vm' = 0 \<and> drawn cv' = 2
    | _ \<Rightarrow> False)"
  by (simp add: eval_defs eval_nat_numeral)

text \<open>
  C1, amended: for a channel with \<open>maxCacheSize = 0\<close> and \<open>drawCount > 0\<close> on a surface
  that rejects no call, ticks after any sequence of pushes reach a tick that reports no
  output after finitely many calls, however many ticks are allowed they end in that
  one state, and the number of samples drawn by then is the number of samples the
  channel held plus the number pushed; nothing is left in the channel.
\<close>

theorem no_sample_dropped_without_catch_up:
  assumes "maxCacheSize vm = 0" and "0 < drawCount vm" and "\<forall>c. \<not> rejects cv c"
  shows "\<exists>n vm' cv'. drain n (foldl ViewModel_push vm (map Some bs)) cv = Some (Inr (vm', cv')) \<and>
           pending vm' = 0 \<and> drawn cv' = drawn cv + pending vm + sum_list (map length bs) \<and>
           (\<forall>m res. drain m (foldl ViewModel_push vm (map Some bs)) cv = Some res \<longrightarrow>
              res = Inr (vm', cv'))"
proof -
  let ?vm = "foldl ViewModel_push vm (map Some bs)"
  from pushed_pending [of vm bs] assms
  have "maxCacheSize ?vm = 0" "0 < drawCount ?vm"
    and p: "pending ?vm = pending vm + sum_list (map length bs)"
    by simp_all
  from drain_exhausts [OF assms(3) this(1,2), of "Suc (pending ?vm)"]
  obtain vm' cv' where d: "drain (Suc (pending ?vm)) ?vm cv = Some (Inr (vm', cv'))"
    and r: "pending vm' = 0" "drawn cv' = drawn cv + pending ?vm"
    by blast
  have "\<forall>m res. drain m ?vm cv = Some res \<longrightarrow> res = Inr (vm', cv')"
    using drain_unique [OF d] by blast
  with d r p have "drain (Suc (pending ?vm)) ?vm cv = Some (Inr (vm', cv')) \<and>
      pending vm' = 0 \<and> drawn cv' = drawn cv + pending vm + sum_list (map length bs) \<and>
      (\<forall>m res. drain m ?vm cv = Some res \<longrightarrow> res = Inr (vm', cv'))"
    by simp
  then show ?thesis by blast
qed

theorem no_sample_dropped_without_catch_up_witness:
  "maxCacheSize (new_ViewModel (lane_options 2 0)) = 0 \<and>
   0 < drawCount (new_ViewModel (lane_options 2 0)) \<and>
   (\<forall>c. \<not> rejects blank_canvas c) \<and>
   (\<exists>n vm' cv'.
      drain n (foldl ViewModel_push (new_ViewModel (lane_options 2 0)) (map Some [[1, 2, 3], [4]]))
        blank_canvas = Some (Inr (vm', cv')) \<and>
      pending vm' = 0 \<and>
      drawn cv' = drawn blank_canvas + pending (new_ViewModel (lane_options 2 0)) +
        sum_list (map length [[1, 2, 3], [4 :: number]]) \<and>
      (\<forall>m res.
         drain m (foldl ViewModel_push (new_ViewModel (lane_options 2 0)) (map Some [[1, 2, 3], [4]]))
           blank_canvas = Some res \<longrightarrow> res = Inr (vm', cv'))) \<and>
   drawn blank_canvas + pending (new_ViewModel (lane_options 2 0)) +
     sum_list (map length [[1, 2, 3], [4 :: number]]) = 4"
proof -
  have h: "maxCacheSize (new_ViewModel (lane_options 2 0)) = 0"
    "0 < drawCount (new_ViewModel (lane_options 2 0))"
    "\<forall>c. \<not> rejects blank_canvas c"
    by (simp_all add: eval_defs)
  have tot: "drawn blank_canvas + pending (new_ViewModel (lane_options 2 0)) +
          sum_list (map length [[1, 2, 3], [4 :: number]]) = 4"
    by (simp add: eval_defs)
  from no_sample_dropped_without_catch_up [OF h, of "[[1, 2, 3], [4]]"] h tot
  show ?thesis by blast
qed

section \<open>The scheduler's life cycle\<close>

lemma clearView_timer:
  "timer (snd (WaveView_clearView s)) = timer s \<and> recover (snd (WaveView_clearView s)) = recover s"
  by (simp add: WaveView_clearView_def split: prod.splits)

lemma draw_timer:
  "timer (snd (draw now s)) = None \<or>
   (timer (snd (draw now s)) = timer s \<and> recover (snd (draw now s)) = recover s)"
proof -
  obtain res ms1 cv1 where r:
    "(if length (models s) = 1 then
        (case onDraw (hd (models s)) (ctx s) True of (r, m1, cv1) \<Rightarrow> (r, [m1], cv1))
      else drawEach (models s) (ctx s) False) = (res, ms1, cv1)"
    by (metis prod_cases3)
  let ?s1 = "s\<lparr>ctx := cv1, models := ms1\<rparr>"
  show ?thesis
  proof (cases res)
    case (Inl e)
    with r have "snd (draw now s) = ?s1"
      by (simp add: draw_def)
    then show ?thesis by simp
  next
    case (Inr drawFlag)
    show ?thesis
    proof (cases "\<not> drawFlag \<and> now - rcvTime ?s1 \<ge> 2000")
      case False
      with r Inr have "snd (draw now s) = ?s1"
        by (auto simp: draw_def Let_def)
      then show ?thesis by simp
    next
      case True
      obtain e s2 where c: "WaveView_clearView ?s1 = (e, s2)"
        by (cases "WaveView_clearView ?s1") auto
      with clearView_timer [of ?s1] have t2: "timer s2 = timer s" "recover s2 = recover s"
        by simp_all
      show ?thesis
      proof (cases e)
        case None
        with r Inr True c have "snd (draw now s) = pause s2"
          by (simp add: draw_def Let_def)
        with t2 show ?thesis
          by (simp add: pause_def stopTimer_def)
      next
        case (Some err)
        with r Inr True c have "snd (draw now s) = s2"
          by (simp add: draw_def Let_def)
        with t2 show ?thesis by simp
      qed
    qed
  qed
qed

lemma fire_recover_while_running:
  "recover_while_running s \<Longrightarrow> recover_while_running (fire s e)"
proof (cases e)
  case (Tick now)
  assume "recover_while_running s"
  with Tick draw_timer [of now s] show ?thesis
    by (auto simp: recover_while_running_def)
qed (auto simp: recover_while_running_def push_def start_def pause_def stop_def
       startTimer_def stopTimer_def Let_def)

lemma run_recover_while_running:
  "recover_while_running s \<Longrightarrow> recover_while_running (run es s)"
  unfolding run_def
  by (induction es arbitrary: s) (simp_all add: fire_recover_while_running)

text \<open>
  C10: every operation (\<open>push\<close>, \<open>start\<close>, \<open>pause\<close>, \<open>stop\<close>, a tick of the interval,
  \<open>draw\<close> with its idle timeout) preserves the invariant that \<open>recover\<close> is true
  whenever the interval is set. A new scheduler satisfies it, so a state with the
  interval set and \<open>recover\<close> false is never reached from it.
\<close>

theorem running_implies_recover:
  "recover_while_running (new_WaveView cv ms iv) \<and>
   (recover_while_running s \<longrightarrow>
      recover_while_running (fire s e) \<and> recover_while_running (snd (draw now s))) \<and>
   recover_while_running (run es (new_WaveView cv ms iv))"
proof -
  have "recover_while_running (new_WaveView cv ms iv)"
    by (simp add: recover_while_running_def new_WaveView_def)
  moreover have "recover_while_running s \<longrightarrow> recover_while_running (snd (draw now s))"
    using draw_timer [of now s] by (auto simp: recover_while_running_def)
  ultimately show ?thesis
    by (simp add: fire_recover_while_running run_recover_while_running)
qed

theorem running_implies_recover_witness:
  "recover_while_running (start idle_view) \<and>
   recover_while_running (fire (start idle_view) Stop) \<and>
   timer (run [Start, Push [Some [1]] 5, Tick 40] idle_view) \<noteq> None \<and>
   recover (run [Start, Push [Some [1]] 5, Tick 40] idle_view)"
proof -
  have a: "recover_while_running (start idle_view)"
    by (simp add: recover_while_running_def idle_view_def new_WaveView_def start_def startTimer_def)
  have b: "timer (run [Start, Push [Some [1]] 5, Tick 40] idle_view) \<noteq> None"
    by (simp add: run_def idle_view_def new_WaveView_def start_def startTimer_def push_def
        draw_def eval_defs)
  from running_implies_recover [of blank_canvas "[new_ViewModel (lane_options 1 0)]" 40
      "start idle_view" Stop 0 "[Start, Push [Some [1]] 5, Tick 40]"] a b
  show ?thesis
    by (simp add: recover_while_running_def idle_view_def)
qed

lemma fire_stopped_for_good:
  "stopped_for_good s \<Longrightarrow> e \<noteq> Start \<Longrightarrow> stopped_for_good (fire s e)"
  by (cases e)
    (auto simp: stopped_for_good_def push_def pause_def stop_def stopTimer_def Let_def)

lemma run_stopped_for_good:
  "stopped_for_good s \<Longrightarrow> Start \<notin> set es \<Longrightarrow> stopped_for_good (run es s)"
  unfolding run_def
  by (induction es arbitrary: s) (auto simp: fire_stopped_for_good)

lemma pushEach_length: "length (pushEach ms ws) = length ms"
  by (induction ms ws rule: pushEach.induct) simp_all

lemma pushEach_nth:
  "i < length ms \<Longrightarrow> i < length ws \<Longrightarrow> pushEach ms ws ! i = ViewModel_push (ms ! i) (ws ! i)"
proof (induction ms ws arbitrary: i rule: pushEach.induct)
  case (1 m ms w ws)
  then show ?case by (cases i) simp_all
qed simp_all

text \<open>
  C4: after \<open>stop\<close> is called on a running scheduler, whatever follows short of
  \<open>start\<close> (pushes, pauses, stops, ticks) leaves the interval unset and \<open>recover\<close> false;
  a further \<open>push\<close> hands \<open>ws ! i\<close> to channel \<open>i\<close> for every index both have and
  still does not set the interval.
\<close>

theorem stop_disables_auto_resume:
  assumes "timer s \<noteq> None" and "Start \<notin> set es"
  shows "timer (run es (stop s)) = None \<and> \<not> recover (run es (stop s)) \<and>
         timer (push ws now (run es (stop s))) = None \<and>
         length (models (push ws now (run es (stop s)))) = length (models (run es (stop s))) \<and>
         (\<forall>i. i < length (models (run es (stop s))) \<and> i < length ws \<longrightarrow>
            models (push ws now (run es (stop s))) ! i =
              ViewModel_push (models (run es (stop s)) ! i) (ws ! i))"
proof -
  from assms(1) have "stopped_for_good (stop s)"
    by (simp add: stopped_for_good_def stop_def stopTimer_def)
  from run_stopped_for_good [OF this assms(2)]
  have t: "timer (run es (stop s)) = None" "\<not> recover (run es (stop s))"
    by (simp_all add: stopped_for_good_def)
  then show ?thesis
    by (cases "ws = []") (simp_all add: push_def Let_def pushEach_length pushEach_nth)
qed

theorem stop_disables_auto_resume_witness:
  "timer (start idle_view) \<noteq> None \<and>
   Start \<notin> set [Push [Some [1]] 5, Pause, Tick 3000, Stop] \<and>
   timer (run [Push [Some [1]] 5, Pause, Tick 3000, Stop] (stop (start idle_view))) = None \<and>
   timer (push [Some [7]] 3010
     (run [Push [Some [1]] 5, Pause, Tick 3000, Stop] (stop (start idle_view)))) = None \<and>
   waveQ (models (push [Some [7]] 3010
     (run [Push [Some [1]] 5, Pause, Tick 3000, Stop] (stop (start idle_view)))) ! 0) = [[1], [7]]"
proof -
  have a: "timer (start idle_view) \<noteq> None"
    by (simp add: idle_view_def new_WaveView_def start_def startTimer_def)
  have b: "Start \<notin> set [Push [Some [1]] 5, Pause, Tick 3000, Stop]"
    by simp
  have c: "models (run [Push [Some [1]] 5, Pause, Tick 3000, Stop] (stop (start idle_view))) =
      [ViewModel_push (new_ViewModel (lane_options 1 0)) (Some [1])]"
    by (simp add: run_def idle_view_def new_WaveView_def start_def startTimer_def stop_def
        pause_def stopTimer_def push_def Let_def)
  from stop_disables_auto_resume [OF a b, of "[Some [7]]" 3010] a b c
  show ?thesis
    by (simp add: ViewModel_push_def new_ViewModel_def Let_def)
qed

text \<open>
  C5, as the specification states it: in every state, a stopped one included,
  \<open>pause\<close> leaves the tick stopped and sets \<open>recover\<close>, so that a later push resumes.
  The code does otherwise after \<open>stop\<close>: \<open>stopTimer\<close> does nothing when no interval
  is set, \<open>recover\<close> stays false and a later push does not resume.
\<close>

theorem pause_when_stopped_keeps_recover:
  "timer (stop (start idle_view)) = None \<and>
   \<not> recover (pause (stop (start idle_view))) \<and>
   timer (push [Some [1]] 5 (pause (stop (start idle_view)))) = None"
  by (simp add: idle_view_def new_WaveView_def start_def startTimer_def stop_def pause_def
      stopTimer_def push_def Let_def)

text \<open>
  C5, amended: in every state whose interval is set, \<open>pause\<close> unsets it and sets
  \<open>recover\<close>, so that the next non-empty push sets the interval again; in a state whose
  interval is not set, \<open>pause\<close> changes nothing.
\<close>

theorem pause_effect:
  "(timer s \<noteq> None \<longrightarrow>
      timer (pause s) = None \<and> recover (pause s) \<and>
      (waves \<noteq> [] \<longrightarrow> timer (push waves now (pause s)) \<noteq> None)) \<and>
   (timer s = None \<longrightarrow> pause s = s)"
  by (simp add: pause_def stopTimer_def push_def startTimer_def Let_def)

theorem pause_effect_witness:
  "timer (start idle_view) \<noteq> None \<and>
   timer (pause (start idle_view)) = None \<and> recover (pause (start idle_view)) \<and>
   [Some [1]] \<noteq> ([] :: number list option list) \<and>
   timer (push [Some [1]] 5 (pause (start idle_view))) \<noteq> None \<and>
   timer (stop (start idle_view)) = None \<and>
   pause (stop (start idle_view)) = stop (start idle_view)"
proof -
  have a: "timer (start idle_view) \<noteq> None"
    by (simp add: idle_view_def new_WaveView_def start_def startTimer_def)
  have b: "timer (stop (start idle_view)) = None"
    by (simp add: idle_view_def new_WaveView_def start_def startTimer_def stop_def stopTimer_def)
  from pause_effect [of "start idle_view" "[Some [1]]" 5] pause_effect [of "stop (start idle_view)"] a b
  show ?thesis by simp
qed

section \<open>Catch-up\<close>

lemma drawCurrent_decides:
  assumes "points_of vm \<noteq> []" and "maxCacheSize vm = 0"
  shows "\<exists>res vm1 cv1. drawCurrent vm cv r = (Some res, vm1, cv1) \<and> waveQ vm1 = waveQ vm"
proof -
  obtain e vm1 cv1 where dv: "drawView vm cv r = (e, vm1, cv1)"
    by (cases "drawView vm cv r") auto
  from drawView_frame [OF dv] assms(2) have "maxCacheSize vm1 = 0" "waveQ vm1 = waveQ vm"
    by auto
  with assms(1) dv show ?thesis
    by (cases e) (simp_all add: drawCurrent_def)
qed

lemma onDraw_one_transition:
  assumes "maxCacheSize vm = 0" and "[] \<notin> set (waveQ vm)"
    and "onDraw vm cv r = (res, vm', cv')"
  shows "waveQ vm' = waveQ vm \<or> (waveQ vm \<noteq> [] \<and> waveQ vm' = tl (waveQ vm))"
proof (cases "points_of vm = []")
  case False
  from drawCurrent_decides [OF False assms(1), of cv r] assms(3) show ?thesis
    by (auto simp: onDraw.simps [of vm cv r])
next
  case True
  then have dc: "drawCurrent vm cv r = (None, vm, cv)"
    by (simp add: drawCurrent_def)
  show ?thesis
  proof (cases "waveQ vm")
    case Nil
    with dc assms(3) show ?thesis
      by (simp add: onDraw.simps [of vm cv r])
  next
    case (Cons ps q)
    let ?vm2 = "vm\<lparr>curPoints := Some ps, waveQ := q\<rparr>"
    from Cons assms(2) have "points_of ?vm2 \<noteq> []"
      by (auto simp: points_of_def)
    moreover have "maxCacheSize ?vm2 = 0" using assms(1) by simp
    ultimately obtain res2 vm2 cv2 where
      "drawCurrent ?vm2 cv r = (Some res2, vm2, cv2)" "waveQ vm2 = waveQ ?vm2"
      using drawCurrent_decides by blast
    then have "onDraw ?vm2 cv r = (res2, vm2, cv2)" "waveQ vm2 = q"
      by (simp_all add: onDraw.simps [of ?vm2 cv r])
    moreover from dc Cons have "onDraw vm cv r = onDraw ?vm2 cv r"
      by (simp add: onDraw.simps [of vm cv r])
    ultimately show ?thesis using assms(3) Cons by simp
  qed
qed

text \<open>
  C2, as the specification states it: with \<open>maxCacheSize = k > 0\<close>, one tick after
  \<open>k + 1\<close> non-empty batches leaves fewer than \<open>k\<close> batches queued (or none); and with
  \<open>maxCacheSize = 0\<close> a tick makes at most one batch transition. The second half fails
  on the code: \<open>push\<close> queues an empty batch, and a tick shifts every empty batch it
  meets. After the batches \<open>[]\<close> and \<open>[5]\<close>, one tick shifts both.
\<close>

theorem empty_batches_are_skipped:
  "maxCacheSize (foldl ViewModel_push (new_ViewModel (lane_options 1 0)) [Some [], Some [5]]) = 0 \<and>
   length (waveQ (foldl ViewModel_push (new_ViewModel (lane_options 1 0)) [Some [], Some [5]])) = 2 \<and>
   fst (onDraw (foldl ViewModel_push (new_ViewModel (lane_options 1 0)) [Some [], Some [5]])
          blank_canvas True) = Inr True \<and>
   length (waveQ (fst (snd (onDraw
          (foldl ViewModel_push (new_ViewModel (lane_options 1 0)) [Some [], Some [5]])
          blank_canvas True)))) = 0"
  by (simp add: eval_defs)

text \<open>
  C2, amended: with \<open>maxCacheSize = k > 0\<close>, a tick that returns (no surface error)
  leaves fewer than \<open>k\<close> batches queued, whatever was queued before, so also after
  \<open>k + 1\<close> non-empty batches; and with \<open>maxCacheSize = 0\<close> and no empty batch in the
  queue, a tick shifts at most one batch off the queue.
\<close>

theorem catch_up_backlog:
  "(0 < k \<and> maxCacheSize vm = real k \<and> onDraw vm cv r = (Inr b, vm', cv') \<longrightarrow>
      length (waveQ vm') < k) \<and>
   (maxCacheSize vm = 0 \<and> [] \<notin> set (waveQ vm) \<and> onDraw vm cv r = (res, vm', cv') \<longrightarrow>
      length (waveQ vm) - length (waveQ vm') \<le> 1 \<and>
      (waveQ vm' = waveQ vm \<or> (waveQ vm \<noteq> [] \<and> waveQ vm' = tl (waveQ vm))))"
proof -
  have "length (waveQ vm') < k"
    if "0 < k" "maxCacheSize vm = real k" "onDraw vm cv r = (Inr b, vm', cv')"
    using onDraw_backlog [OF that(3)] that(1,2) by simp
  moreover have "length (waveQ vm) - length (waveQ vm') \<le> 1 \<and>
      (waveQ vm' = waveQ vm \<or> (waveQ vm \<noteq> [] \<and> waveQ vm' = tl (waveQ vm)))"
    if "maxCacheSize vm = 0" "[] \<notin> set (waveQ vm)" "onDraw vm cv r = (res, vm', cv')"
    using onDraw_one_transition [OF that] by auto
  ultimately show ?thesis by blast
qed

theorem catch_up_backlog_witness:
  "(0 :: nat) < 2 \<and>
   maxCacheSize (foldl ViewModel_push (new_ViewModel (lane_options 1 2)) (map Some [[1], [2], [3]])) = real 2 \<and>
   fst (onDraw (foldl ViewModel_push (new_ViewModel (lane_options 1 2)) (map Some [[1], [2], [3]]))
          blank_canvas True) = Inr True \<and>
   length (waveQ (fst (snd (onDraw
          (foldl ViewModel_push (new_ViewModel (lane_options 1 2)) (map Some [[1], [2], [3]]))
          blank_canvas True)))) < 2 \<and>
   maxCacheSize (foldl ViewModel_push (new_ViewModel (lane_options 1 0)) (map Some [[1], [2]])) = 0 \<and>
   [] \<notin> set (waveQ (foldl ViewModel_push (new_ViewModel (lane_options 1 0)) (map Some [[1], [2]]))) \<and>
   length (waveQ (foldl ViewModel_push (new_ViewModel (lane_options 1 0)) (map Some [[1], [2]]))) -
     length (waveQ (fst (snd (onDraw
          (foldl ViewModel_push (new_ViewModel (lane_options 1 0)) (map Some [[1], [2]]))
          blank_canvas True)))) \<le> 1"
proof -
  let ?A = "foldl ViewModel_push (new_ViewModel (lane_options 1 2)) (map Some [[1], [2], [3]])"
  let ?B = "foldl ViewModel_push (new_ViewModel (lane_options 1 0)) (map Some [[1], [2]])"
  have a: "(0 :: nat) < 2" "maxCacheSize ?A = real 2"
    "onDraw ?A blank_canvas True =
       (Inr True, fst (snd (onDraw ?A blank_canvas True)), snd (snd (onDraw ?A blank_canvas True)))"
    by (simp_all add: eval_defs)
  have b: "maxCacheSize ?B = 0" "[] \<notin> set (waveQ ?B)"
    "onDraw ?B blank_canvas True =
       (fst (onDraw ?B blank_canvas True), fst (snd (onDraw ?B blank_canvas True)),
        snd (snd (onDraw ?B blank_canvas True)))"
    by (simp_all add: eval_defs)
  from catch_up_backlog [where k = 2 and vm = ?A and cv = blank_canvas and r = True and b = True
      and vm' = "fst (snd (onDraw ?A blank_canvas True))"
      and cv' = "snd (snd (onDraw ?A blank_canvas True))"] a
  have "length (waveQ (fst (snd (onDraw ?A blank_canvas True)))) < 2"
    by blast
  moreover
  from catch_up_backlog [where vm = ?B and cv = blank_canvas and r = True
      and res = "fst (onDraw ?B blank_canvas True)"
      and vm' = "fst (snd (onDraw ?B blank_canvas True))"
      and cv' = "snd (snd (onDraw ?B blank_canvas True))"] b
  have "length (waveQ ?B) - length (waveQ (fst (snd (onDraw ?B blank_canvas True)))) \<le> 1"
    by blast
  moreover have "fst (onDraw ?A blank_canvas True) = Inr True"
    using a(3) by (metis fst_conv)
  ultimately show ?thesis using a(1,2) b(1,2) by blast
qed

section \<open>Enqueueing\<close>

text \<open>
  C6, as the specification states it: enqueueing an empty batch changes nothing, and no
  empty batch is ever appended. The code tests \<^verbatim>\<open>if (points)\<close>, which an empty
  array passes: the empty batch is appended.
\<close>

theorem empty_batch_is_queued:
  "waveQ (new_ViewModel (lane_options 1 0)) = [] \<and>
   waveQ (ViewModel_push (new_ViewModel (lane_options 1 0)) (Some [])) = [[]] \<and>
   ViewModel_push (new_ViewModel (lane_options 1 0)) (Some []) \<noteq> new_ViewModel (lane_options 1 0)"
proof -
  have "waveQ (ViewModel_push (new_ViewModel (lane_options 1 0)) (Some [])) = [[]]"
    "waveQ (new_ViewModel (lane_options 1 0)) = []"
    by (simp_all add: eval_defs)
  then show ?thesis by auto
qed

text \<open>
  C6, amended: enqueueing a missing batch (\<^verbatim>\<open>null\<close> or \<^verbatim>\<open>undefined\<close>) changes
  nothing; every array, the empty one included, is appended at the back of the queue
  and nothing else changes.
\<close>

theorem ViewModel_push_appends:
  "ViewModel_push vm None = vm \<and>
   ViewModel_push vm (Some ps) = vm\<lparr>waveQ := waveQ vm @ [ps]\<rparr> \<and>
   waveQ (ViewModel_push vm (Some ps)) = waveQ vm @ [ps] \<and>
   waveQ (ViewModel_push vm (Some [])) = waveQ vm @ [[]]"
  by (simp add: ViewModel_push_def)

section \<open>The cursor\<close>




section \<open>Construction\<close>

text \<open>
  C9 says that every optional field takes the supplied value when there is one, and
  that \<^verbatim>\<open>clearView: false\<close> gives \<open>clearView = false\<close>. The constructor computes
  \<^verbatim>\<open>options.clearView ? options.clearView : true\<close>, which is true for every input:
  the option cannot switch clearing off. The same test replaces a supplied \<open>0\<close> by the
  default in \<open>drawCount\<close>, \<open>step\<close>, \<open>scaleRatio\<close>, \<open>padding\<close> and \<open>baseLine\<close>. The
  theorem evaluates the constructor at these inputs.
\<close>

theorem clearView_option_ignored:
  "clearView (new_ViewModel (options\<lparr>opt_clearView := Some False\<rparr>)) \<and>
   clearView (new_ViewModel options) \<and>
   drawCount (new_ViewModel (options\<lparr>opt_drawCount := 0\<rparr>)) = 1 \<and>
   step (new_ViewModel (options\<lparr>opt_step := Some 0\<rparr>)) = 1 \<and>
   scaleRatio (new_ViewModel (options\<lparr>opt_scaleRatio := Some 0\<rparr>)) = 1 \<and>
   padding (new_ViewModel (options\<lparr>opt_padding := Some 0\<rparr>)) = 16 \<and>
   baseLine (new_ViewModel (options\<lparr>opt_baseLine := Some 0, opt_height := 200\<rparr>)) = 100"
  by (simp add: new_ViewModel_def bool_or_def num_or_def floor_num_def Let_def split: option.splits)

section \<open>Idle clearing\<close>

text \<open>
  C3 says that an idle tick two seconds after the last arrival clears every channel
  once and pauses, and that idle ticks after the first clear do not clear again.
  \<open>clearView\<close> sets the flag \<open>clear\<close>, but \<open>draw\<close> never reads it. The theorem
  evaluates the code on a scheduler with one channel and no data: the first idle tick
  clears the rectangle once, sets the flag and pauses; after \<open>start\<close> the next idle tick
  clears the rectangle a second time.
\<close>

theorem idle_clear_repeats:
  "calls (ctx (run [Start, Tick 2000] idle_view)) = [ClearRect 0 0 300 200] \<and>
   timer (run [Start, Tick 2000] idle_view) = None \<and>
   clear (run [Start, Tick 2000] idle_view) \<and>
   calls (ctx (run [Start, Tick 2000, Start, Tick 2040] idle_view)) =
     [ClearRect 0 0 300 200, ClearRect 0 0 300 200]"
  by (simp add: view_defs eval_defs)

section \<open>Surface errors\<close>

text \<open>
  C7 says that an error of one channel's draw does not keep the other channels from
  being drawn in the same tick and does not leave the tick. The loop of \<open>draw\<close> has no
  handler. The theorem evaluates the code on two channels with one packet each, on a
  surface that rejects the calls of the first: \<open>draw\<close> ends with the error, the second
  channel is as it was and nothing was drawn, although its own \<open>onDraw\<close> succeeds on
  that surface. \<open>clearView\<close> on the same state catches the error and clears the second
  channel.
\<close>

theorem draw_error_skips_later_channels:
  "fst (draw 40 (two_lane_view faulty_canvas)) = Some (SurfaceError (ClearRect (- 1) 0 16 100)) \<and>
   models (snd (draw 40 (two_lane_view faulty_canvas))) ! 1 = models (two_lane_view faulty_canvas) ! 1 \<and>
   calls (ctx (snd (draw 40 (two_lane_view faulty_canvas)))) = [] \<and>
   fst (onDraw (models (two_lane_view faulty_canvas) ! 1) faulty_canvas True) = Inr True \<and>
   fst (WaveView_clearView (two_lane_view faulty_canvas)) = None \<and>
   calls (ctx (snd (WaveView_clearView (two_lane_view faulty_canvas)))) = [ClearRect 0 100 300 100]"
  by (simp add: two_lane_view_def faulty_canvas_def lane_at_def view_defs eval_defs)

end
